theory Spec2Isabelle
  imports Main "HOL-Library.Char_ord" "HOL-Library.List_Lexorder" "HOL-Library.Multiset"
begin

section \<open>Data model\<close>

text \<open>
  A candidate article is one of the dictionaries of \<^verbatim>\<open>fetch_mock_data\<close>; the table
  \<^verbatim>\<open>articles\<close> stores them with a generated primary key. The column \<^verbatim>\<open>summary\<close> is the
  only one declared without \<^verbatim>\<open>NOT NULL\<close>, so it is the only optional field. The table is
  a list of rows in rowid order: rows are only ever appended.
\<close>

record article =
  title :: string
  summary :: "string option"
  link :: string
  source :: string
  published_date :: string

record row =
  row_id :: string
  cols :: article

type_synonym store = "row list"

text \<open>
  Exceptions of the sqlite3 driver (a violated constraint, a failure of the store, a
  parameter that the statement names and the dictionary lacks) and of
  \<^verbatim>\<open>datetime.strptime\<close>. Everything that is not an \<^verbatim>\<open>IntegrityError\<close> reaches the
  handler \<^verbatim>\<open>except Exception\<close>.
\<close>

datatype exn = IntegrityError | OperationalError string | ProgrammingError | ValueError

text \<open>
  The environment of one command: whether \<^verbatim>\<open>sqlite3.connect\<close> raises, whether the
  \<open>i\<close>-th \<^verbatim>\<open>cursor.execute\<close> of the insert loop raises for a reason of the store (disk,
  lock), whether \<^verbatim>\<open>conn.commit\<close> raises, and whether \<^verbatim>\<open>pd.read_sql_query\<close> raises.
\<close>

record db_env =
  connect_error :: "string option"
  execute_error :: "nat \<Rightarrow> string option"
  commit_error :: "string option"
  read_error :: "string option"

section \<open>Ingestion: \<^verbatim>\<open>save_articles\<close>\<close>

text \<open>
  \<^verbatim>\<open>df.drop_duplicates(subset=['link'], keep='first')\<close>: the first row of every link
  survives, in the order of the batch.
\<close>

fun drop_dups :: "string list \<Rightarrow> article list \<Rightarrow> article list" where
  "drop_dups seen [] = []"
| "drop_dups seen (a # as) =
     (if link a \<in> set seen then drop_dups seen as
      else a # drop_dups (link a # seen) as)"

definition drop_duplicates :: "article list \<Rightarrow> article list" where
  "drop_duplicates df = drop_dups [] df"

text \<open>
  \<^verbatim>\<open>df_deduped['id'] = [str(uuid.uuid4()) for _ in range(len(df_deduped))]\<close>: the
  \<open>i\<close>-th surviving row receives the \<open>i\<close>-th generated identifier. The generator is a
  parameter \<open>uuid4\<close>.
\<close>

fun assign_ids :: "(nat \<Rightarrow> string) \<Rightarrow> nat \<Rightarrow> article list \<Rightarrow> row list" where
  "assign_ids uuid4 i [] = []"
| "assign_ids uuid4 i (a # as) = \<lparr>row_id = uuid4 i, cols = a\<rparr> # assign_ids uuid4 (Suc i) as"

text \<open>
  One \<^verbatim>\<open>INSERT\<close>. A store failure raises whatever the table holds; otherwise the
  constraints \<^verbatim>\<open>id TEXT PRIMARY KEY\<close> and \<^verbatim>\<open>link TEXT UNIQUE\<close> raise
  \<^verbatim>\<open>IntegrityError\<close>, and a row that passes them is appended.
\<close>

definition insert_row :: "string option \<Rightarrow> row \<Rightarrow> store \<Rightarrow> exn + store" where
  "insert_row fault r st =
     (case fault of
        Some e \<Rightarrow> Inl (OperationalError e)
      | None \<Rightarrow>
          if row_id r \<in> set (map row_id st) \<or> link (cols r) \<in> set (map (\<lambda>x. link (cols x)) st)
          then Inl IntegrityError
          else Inr (st @ [r]))"

text \<open>
  The local variables of the loop: the two counters, and the lines
  \<^verbatim>\<open>Error inserting article {title}: {e}\<close> printed by the last handler.
\<close>

record counters =
  new_articles_count :: int
  duplicate_count :: int
  error_lines :: "(string \<times> exn) list"

fun insert_rows ::
  "(nat \<Rightarrow> string option) \<Rightarrow> nat \<Rightarrow> row list \<Rightarrow> store \<Rightarrow> counters \<Rightarrow> store \<times> counters" where
  "insert_rows ee i [] st c = (st, c)"
| "insert_rows ee i (r # rs) st c =
     (case insert_row (ee i) r st of
        Inr st' \<Rightarrow>
          insert_rows ee (Suc i) rs st' (c\<lparr>new_articles_count := new_articles_count c + 1\<rparr>)
      | Inl IntegrityError \<Rightarrow>
          insert_rows ee (Suc i) rs st (c\<lparr>duplicate_count := duplicate_count c + 1\<rparr>)
      | Inl e \<Rightarrow>
          insert_rows ee (Suc i) rs st (c\<lparr>error_lines := error_lines c @ [(title (cols r), e)]\<rparr>))"

text \<open>
  The three lines of \<^verbatim>\<open>--- Save Results ---\<close>: \<^verbatim>\<open>len(articles)\<close>,
  \<^verbatim>\<open>new_articles_count\<close> and \<^verbatim>\<open>len(articles) - new_articles_count\<close>.
\<close>

record report =
  attempted :: int
  inserted :: int
  duplicates :: int

text \<open>
  How a call of \<^verbatim>\<open>save_articles\<close> ends: the early return on an empty batch, the
  printed report together with the final local variables, or an exception that leaves the
  function (\<^verbatim>\<open>get_db_connection\<close> and \<^verbatim>\<open>conn.commit\<close> are outside every handler).
\<close>

datatype save_outcome = NothingToSave | Saved report counters | Aborted exn

definition save_articles ::
  "db_env \<Rightarrow> (nat \<Rightarrow> string) \<Rightarrow> article list \<Rightarrow> store \<Rightarrow> store \<times> save_outcome" where
  "save_articles env uuid4 articles st =
     (if articles = [] then (st, NothingToSave)
      else
        let df_deduped = assign_ids uuid4 0 (drop_duplicates articles) in
        case connect_error env of
          Some e \<Rightarrow> (st, Aborted (OperationalError e))
        | None \<Rightarrow>
            let (st', c) = insert_rows (execute_error env) 0 df_deduped st
                             \<lparr>new_articles_count = 0, duplicate_count = 0, error_lines = []\<rparr>
            in case commit_error env of
                 Some e \<Rightarrow> (st, Aborted (OperationalError e))
               | None \<Rightarrow>
                   (st', Saved \<lparr>attempted = int (length articles),
                                inserted = new_articles_count c,
                                duplicates = int (length articles) - new_articles_count c\<rparr> c))"

text \<open>
  Predicates used to state the claims: no failure of the store during the first \<open>n\<close>
  inserts of a command, and presence of a link in the table.
\<close>

definition no_store_faults :: "db_env \<Rightarrow> nat \<Rightarrow> bool" where
  "no_store_faults env n =
     (connect_error env = None \<and> commit_error env = None \<and>
      list_all (\<lambda>i. execute_error env i = None) [0..<n])"

definition link_stored :: "store \<Rightarrow> string \<Rightarrow> bool" where
  "link_stored st l = (l \<in> set (map (\<lambda>x. link (cols x)) st))"




text \<open>Concrete inputs for the evaluated instances below.\<close>

definition env_ok :: db_env where
  "env_ok = \<lparr>connect_error = None, execute_error = (\<lambda>_. None), commit_error = None,
             read_error = None\<rparr>"

definition env_fault0 :: db_env where
  "env_fault0 = \<lparr>connect_error = None,
                  execute_error = (\<lambda>i. if i = 0 then Some ''disk I/O error'' else None),
                  commit_error = None, read_error = None\<rparr>"

definition example_article :: "string \<Rightarrow> string \<Rightarrow> article" where
  "example_article t l =
     \<lparr>title = t, summary = Some ''...'', link = l, source = ''SourceA (Tech Weekly)'',
      published_date = ''2024-10-25''\<rparr>"

definition uuid_example :: "nat \<Rightarrow> string" where
  "uuid_example i = replicate (Suc i) CHR ''u''"

section \<open>Queries: \<^verbatim>\<open>build_query\<close> and \<^verbatim>\<open>execute_query\<close>\<close>

text \<open>
  The namespace of argparse: each of \<^verbatim>\<open>args.source\<close>, \<^verbatim>\<open>args.keyword\<close> and
  \<^verbatim>\<open>args.date\<close> is \<^verbatim>\<open>None\<close> or a string. The test \<^verbatim>\<open>if args.source:\<close> is Python's
  truth value: \<^verbatim>\<open>None\<close> and the empty string both fail it.
\<close>

record args =
  args_source :: "string option"
  args_keyword :: "string option"
  args_date :: "string option"

definition truthy :: "string option \<Rightarrow> string option" where
  "truthy x = (case x of None \<Rightarrow> None | Some s \<Rightarrow> if s = [] then None else Some s)"

subsection \<open>\<^verbatim>\<open>datetime.strptime(s, '%Y-%m-%d')\<close>\<close>

text \<open>
  The library compiles the format to the regular expression
  \<^verbatim>\<open>(?P<Y>\d\d\d\d)-(?P<m>1[0-2]|0[1-9]|[1-9])-(?P<d>3[0-1]|[1-2]\d|0[1-9]|[1-9]| [1-9])\<close>,
  matches it at the start of the string, raises \<^verbatim>\<open>ValueError\<close> when there is no match or
  when characters remain after the match, and raises \<^verbatim>\<open>ValueError\<close> again when the
  three numbers are not a date of the calendar (year 0, day beyond the month). Each piece
  returns the list of its matches in the order in which the backtracking matcher tries
  them, each with the rest of the string.
\<close>

definition is_digit :: "char \<Rightarrow> bool" where
  "is_digit c = (c \<in> set ''0123456789'')"

definition digit_val :: "char \<Rightarrow> nat" where
  "digit_val c = of_char c - 48"

definition in_range :: "char \<Rightarrow> char \<Rightarrow> char \<Rightarrow> bool" where
  "in_range lo hi c = (is_digit c \<and> digit_val lo \<le> digit_val c \<and> digit_val c \<le> digit_val hi)"

fun match_Y :: "string \<Rightarrow> (nat \<times> string) list" where
  "match_Y (a # b # c # d # rest) =
     (if is_digit a \<and> is_digit b \<and> is_digit c \<and> is_digit d
      then [(1000 * digit_val a + 100 * digit_val b + 10 * digit_val c + digit_val d, rest)]
      else [])"
| "match_Y _ = []"

fun two_chars :: "(char \<Rightarrow> bool) \<Rightarrow> (char \<Rightarrow> bool) \<Rightarrow> string \<Rightarrow> (nat \<times> string) list" where
  "two_chars p q (a # b # rest) =
     (if p a \<and> q b
      then [((if is_digit a then 10 * digit_val a else 0) + digit_val b, rest)] else [])"
| "two_chars p q _ = []"

fun one_char :: "(char \<Rightarrow> bool) \<Rightarrow> string \<Rightarrow> (nat \<times> string) list" where
  "one_char p (a # rest) = (if p a then [(digit_val a, rest)] else [])"
| "one_char p [] = []"

definition match_m :: "string \<Rightarrow> (nat \<times> string) list" where
  "match_m s =
     two_chars (\<lambda>c. c = CHR ''1'') (in_range CHR ''0'' CHR ''2'') s
     @ two_chars (\<lambda>c. c = CHR ''0'') (in_range CHR ''1'' CHR ''9'') s
     @ one_char (in_range CHR ''1'' CHR ''9'') s"

definition match_d :: "string \<Rightarrow> (nat \<times> string) list" where
  "match_d s =
     two_chars (\<lambda>c. c = CHR ''3'') (in_range CHR ''0'' CHR ''1'') s
     @ two_chars (in_range CHR ''1'' CHR ''2'') is_digit s
     @ two_chars (\<lambda>c. c = CHR ''0'') (in_range CHR ''1'' CHR ''9'') s
     @ one_char (in_range CHR ''1'' CHR ''9'') s
     @ two_chars (\<lambda>c. c = CHR '' '') (in_range CHR ''1'' CHR ''9'') s"

fun match_dash :: "string \<Rightarrow> string list" where
  "match_dash (c # rest) = (if c = CHR ''-'' then [rest] else [])"
| "match_dash [] = []"

definition format_regex_match :: "string \<Rightarrow> ((nat \<times> nat \<times> nat) \<times> string) list" where
  "format_regex_match s =
     concat (map (\<lambda>(y, r1).
       concat (map (\<lambda>r2.
         concat (map (\<lambda>(m, r3).
           concat (map (\<lambda>r4.
             map (\<lambda>(d, r5). ((y, m, d), r5)) (match_d r4))
           (match_dash r3)))
         (match_m r2)))
       (match_dash r1)))
     (match_Y s))"

definition is_leap :: "nat \<Rightarrow> bool" where
  "is_leap y = (y mod 4 = 0 \<and> (y mod 100 \<noteq> 0 \<or> y mod 400 = 0))"

definition days_in_month :: "nat \<Rightarrow> nat \<Rightarrow> nat" where
  "days_in_month y m =
     (if m = 2 then (if is_leap y then 29 else 28)
      else if m \<in> {4, 6, 9, 11} then 30 else 31)"

definition strptime :: "string \<Rightarrow> exn + (nat \<times> nat \<times> nat)" where
  "strptime s =
     (case format_regex_match s of
        [] \<Rightarrow> Inl ValueError
      | ((y, m, d), rest) # _ \<Rightarrow>
          if rest \<noteq> [] then Inl ValueError
          else if 1 \<le> y \<and> 1 \<le> m \<and> m \<le> 12 \<and> 1 \<le> d \<and> d \<le> days_in_month y m
          then Inr (y, m, d)
          else Inl ValueError)"

subsection \<open>\<^verbatim>\<open>build_query\<close>\<close>

text \<open>
  The statement is \<^verbatim>\<open>SELECT * FROM articles WHERE 1=1\<close>, followed by the fragments the
  function appends, followed by \<^verbatim>\<open>ORDER BY published_date DESC\<close>. It is kept as the list
  of the appended fragments: \<^verbatim>\<open>AND source LIKE :source\<close>,
  \<^verbatim>\<open>AND (title LIKE :keyword OR summary LIKE :keyword)\<close> and
  \<^verbatim>\<open>AND published_date = :date\<close>. The dictionary \<^verbatim>\<open>params\<close> is an association list.
  The third component is what the function prints: the date strings of the warnings
  \<^verbatim>\<open>Invalid date format provided\<close>.
\<close>

datatype clause = SourceLike | KeywordLike | DateEq

type_synonym params = "(string \<times> string) list"

definition build_query :: "args \<Rightarrow> (clause list \<times> params) \<times> string list" where
  "build_query a =
     (let (q1, p1) =
            (case truthy (args_source a) of
               Some s \<Rightarrow> ([SourceLike], [(''source'', ''%'' @ s @ ''%'')])
             | None \<Rightarrow> ([], []));
          (q2, p2) =
            (case truthy (args_keyword a) of
               Some k \<Rightarrow> (q1 @ [KeywordLike], p1 @ [(''keyword'', ''%'' @ k @ ''%'')])
             | None \<Rightarrow> (q1, p1))
      in case truthy (args_date a) of
           Some d \<Rightarrow>
             (case strptime d of
                Inr _ \<Rightarrow> ((q2 @ [DateEq], p2 @ [(''date'', d)]), [])
              | Inl _ \<Rightarrow> ((q2, p2), [d]))
         | None \<Rightarrow> ((q2, p2), []))"

subsection \<open>The statement, as SQLite runs it\<close>

text \<open>
  \<^verbatim>\<open>LIKE\<close> without \<^verbatim>\<open>ESCAPE\<close>: in the pattern \<^verbatim>\<open>%\<close> stands for any run of characters
  and \<^verbatim>\<open>_\<close> for any one character; every other character stands for itself, the letters
  A to Z and a to z without regard to case.
\<close>

definition lower_char :: "char \<Rightarrow> char" where
  "lower_char c =
     (case map_of (zip ''ABCDEFGHIJKLMNOPQRSTUVWXYZ'' ''abcdefghijklmnopqrstuvwxyz'') c of
        Some l \<Rightarrow> l
      | None \<Rightarrow> c)"

fun like :: "string \<Rightarrow> string \<Rightarrow> bool" where
  "like [] s = (s = [])"
| "like (p # ps) [] = (p = CHR ''%'' \<and> like ps [])"
| "like (p # ps) (c # cs) =
     (if p = CHR ''%'' then like ps (c # cs) \<or> like (p # ps) cs
      else if p = CHR ''_'' then like ps cs
      else lower_char p = lower_char c \<and> like ps cs)"

text \<open>
  One fragment on one row; \<^verbatim>\<open>None\<close> when the dictionary lacks the parameter it names
  (the driver raises). A \<^verbatim>\<open>NULL\<close> summary makes \<^verbatim>\<open>summary LIKE :keyword\<close> unknown, and
  the row is then kept only when the title matches.
\<close>

fun clause_holds :: "params \<Rightarrow> clause \<Rightarrow> article \<Rightarrow> bool option" where
  "clause_holds ps SourceLike r =
     (case map_of ps ''source'' of None \<Rightarrow> None | Some p \<Rightarrow> Some (like p (source r)))"
| "clause_holds ps KeywordLike r =
     (case map_of ps ''keyword'' of
        None \<Rightarrow> None
      | Some p \<Rightarrow>
          Some (like p (title r) \<or> (case summary r of None \<Rightarrow> False | Some s \<Rightarrow> like p s)))"
| "clause_holds ps DateEq r =
     (case map_of ps ''date'' of None \<Rightarrow> None | Some d \<Rightarrow> Some (published_date r = d))"

definition bound :: "params \<Rightarrow> clause \<Rightarrow> bool" where
  "bound ps c =
     (case c of SourceLike \<Rightarrow> map_of ps ''source'' \<noteq> None
      | KeywordLike \<Rightarrow> map_of ps ''keyword'' \<noteq> None
      | DateEq \<Rightarrow> map_of ps ''date'' \<noteq> None)"

definition where_holds :: "clause list \<Rightarrow> params \<Rightarrow> row \<Rightarrow> bool" where
  "where_holds q ps r = list_all (\<lambda>c. clause_holds ps c (cols r) = Some True) q"

text \<open>
  \<^verbatim>\<open>ORDER BY published_date DESC\<close> on a \<^verbatim>\<open>TEXT\<close> column compares the strings byte by
  byte. The rows are scanned in rowid order and sorted by insertion, so that rows of one
  date keep the order of the table.
\<close>

fun insert_desc :: "row \<Rightarrow> row list \<Rightarrow> row list" where
  "insert_desc r [] = [r]"
| "insert_desc r (x # xs) =
     (if published_date (cols r) < published_date (cols x) then x # insert_desc r xs
      else r # x # xs)"

text \<open>Descending order of the dates of two rows.\<close>

abbreviation date_desc :: "row \<Rightarrow> row \<Rightarrow> bool" where
  "date_desc x y \<equiv> published_date (cols y) \<le> published_date (cols x)"

definition order_by_published_date_desc :: "row list \<Rightarrow> row list" where
  "order_by_published_date_desc rows = foldr insert_desc rows []"

definition read_sql_query :: "clause list \<times> params \<Rightarrow> store \<Rightarrow> exn + row list" where
  "read_sql_query qp st =
     (case qp of (q, ps) \<Rightarrow>
        if list_all (bound ps) q
        then Inr (order_by_published_date_desc (filter (where_holds q ps) st))
        else Inl ProgrammingError)"

subsection \<open>\<^verbatim>\<open>execute_query\<close>\<close>

text \<open>
  A call either returns a value or is left by an exception. \<^verbatim>\<open>execute_query\<close> opens the
  connection outside its \<^verbatim>\<open>try\<close>; inside, every exception is printed as
  \<^verbatim>\<open>Database query failed: {e}\<close> and replaced by an empty frame. The frame that is
  returned has lost the column \<^verbatim>\<open>id\<close>.
\<close>

datatype 'a outcome = Returned 'a | Raised exn

record query_run =
  result :: "article list outcome"
  warnings :: "string list"
  failure_line :: "exn option"

definition execute_query :: "db_env \<Rightarrow> args \<Rightarrow> store \<Rightarrow> query_run" where
  "execute_query env a st =
     (case build_query a of (qp, ws) \<Rightarrow>
        (case connect_error env of
           Some e \<Rightarrow> \<lparr>result = Raised (OperationalError e), warnings = ws, failure_line = None\<rparr>
         | None \<Rightarrow>
             (case read_error env of
                Some e \<Rightarrow>
                  \<lparr>result = Returned [], warnings = ws,
                   failure_line = Some (OperationalError e)\<rparr>
              | None \<Rightarrow>
                  (case read_sql_query qp st of
                     Inr df \<Rightarrow> \<lparr>result = Returned (map cols df), warnings = ws, failure_line = None\<rparr>
                   | Inl e \<Rightarrow> \<lparr>result = Returned [], warnings = ws, failure_line = Some e\<rparr>))))"

text \<open>
  What the claims call containing a pattern as a substring without regard to case, for
  comparison with \<^verbatim>\<open>LIKE\<close>.
\<close>

fun contains_ci :: "string \<Rightarrow> string \<Rightarrow> bool" where
  "contains_ci pat [] = (pat = [])"
| "contains_ci pat (c # cs) =
     (take (length pat) (map lower_char (c # cs)) = map lower_char pat \<or> contains_ci pat cs)"

definition no_constraints :: "args \<Rightarrow> bool" where
  "no_constraints a =
     (truthy (args_source a) = None \<and> truthy (args_keyword a) = None \<and>
      truthy (args_date a) = None)"

text \<open>
  The rows a filter keeps, field by field: the two \<^verbatim>\<open>LIKE\<close> fragments with the patterns
  \<^verbatim>\<open>build_query\<close> binds, and the date fragment, present only for a date that parses.
\<close>

definition source_matches :: "args \<Rightarrow> article \<Rightarrow> bool" where
  "source_matches a r =
     (case truthy (args_source a) of
        None \<Rightarrow> True
      | Some s \<Rightarrow> like (''%'' @ s @ ''%'') (source r))"

definition keyword_matches :: "args \<Rightarrow> article \<Rightarrow> bool" where
  "keyword_matches a r =
     (case truthy (args_keyword a) of
        None \<Rightarrow> True
      | Some k \<Rightarrow>
          like (''%'' @ k @ ''%'') (title r)
          \<or> (case summary r of None \<Rightarrow> False | Some s \<Rightarrow> like (''%'' @ k @ ''%'') s))"

definition date_matches :: "args \<Rightarrow> article \<Rightarrow> bool" where
  "date_matches a r =
     (case truthy (args_date a) of
        None \<Rightarrow> True
      | Some d \<Rightarrow> (case strptime d of Inr _ \<Rightarrow> published_date r = d | Inl _ \<Rightarrow> True))"

definition wildcard_free :: "string \<Rightarrow> bool" where
  "wildcard_free pat = (CHR ''%'' \<notin> set pat \<and> CHR ''_'' \<notin> set pat)"

text \<open>A table of three rows, two of them of the same date, for the evaluated instances.\<close>

definition example_store :: store where
  "example_store =
     [\<lparr>row_id = ''x1'', cols = (example_article ''A'' ''L1'')\<lparr>published_date := ''2024-10-24''\<rparr>\<rparr>,
      \<lparr>row_id = ''x2'', cols = example_article ''B'' ''L2''\<rparr>,
      \<lparr>row_id = ''x3'', cols = (example_article ''C'' ''L3'')\<lparr>published_date := ''2024-10-24''\<rparr>\<rparr>]"

definition no_filter :: args where
  "no_filter = \<lparr>args_source = None, args_keyword = None, args_date = None\<rparr>"

section \<open>The mock source: \<^verbatim>\<open>fetch_mock_data\<close>\<close>

text \<open>
  The five dictionaries of the function. The two dates are
  \<^verbatim>\<open>today.strftime(DATE_FORMAT)\<close> and \<^verbatim>\<open>yesterday.strftime(DATE_FORMAT)\<close>; the clock is
  not modelled, so both strings are parameters.
\<close>

definition all_articles :: "string \<Rightarrow> string \<Rightarrow> article list" where
  "all_articles today yesterday =
     [\<lparr>title = ''AI Breakthrough: New LLM achieves record performance'',
       summary = Some ''Researchers have unveiled a massive new language model...'',
       link = ''http://sourcea.com/article1'',
       source = ''SourceA (Tech Weekly)'',
       published_date = today\<rparr>,
      \<lparr>title = ''Global Markets Rally on Tech Stocks Optimism'',
       summary = Some ''The stock market saw significant gains driven by...'',
       link = ''http://sourceb.com/article2'',
       source = ''SourceB (Finance News)'',
       published_date = today\<rparr>,
      \<lparr>title = ''The Future of Robotics in Manufacturing: A Deep Dive'',
       summary = Some ''Automation continues to reshape factory floors globally.'',
       link = ''http://sourcea.com/article3'',
       source = ''SourceA (Tech Weekly)'',
       published_date = yesterday\<rparr>,
      \<lparr>title = ''New Policy Changes Affecting Small Businesses'',
       summary = Some ''Government introduces incentives for local entrepreneurs.'',
       link = ''http://sourcec.com/article4'',
       source = ''SourceC (Policy Hub)'',
       published_date = today\<rparr>,
      \<lparr>title = ''AI Breakthrough: New LLM achieves record performance'',
       summary = Some ''Researchers have unveiled a massive new language model...'',
       link = ''http://sourcea.com/article1_v2'',
       source = ''SourceA (Tech Weekly)'',
       published_date = today\<rparr>]"

text \<open>\<^verbatim>\<open>str.lower\<close>, on the letters A to Z.\<close>

definition lower :: "string \<Rightarrow> string" where
  "lower s = map lower_char s"

definition fetch_mock_data :: "string \<Rightarrow> string \<Rightarrow> string option \<Rightarrow> article list" where
  "fetch_mock_data today yesterday source_filter =
     (case truthy source_filter of
        Some f \<Rightarrow> filter (\<lambda>a. lower (source a) = lower f) (all_articles today yesterday)
      | None \<Rightarrow> all_articles today yesterday)"

section \<open>Export: \<^verbatim>\<open>export_data\<close>\<close>

subsection \<open>\<^verbatim>\<open>df.to_csv(output_file, index=False)\<close>\<close>

text \<open>
  The frame has the five columns that are left once \<^verbatim>\<open>execute_query\<close> has dropped
  \<^verbatim>\<open>id\<close>. pandas hands each row to a \<^verbatim>\<open>csv.writer\<close> with the default dialect
  (comma, double quote, minimal quoting, doubled quotes) and the line terminator of the
  platform, here a line feed. A missing value is written as the empty string
  (\<^verbatim>\<open>na_rep=''\<close>). A field is quoted exactly when it holds a comma, a double quote, a
  line feed or a carriage return.
\<close>

definition quote_char :: char where "quote_char = CHR 0x22"
definition newline :: char where "newline = CHR 0x0A"
definition carriage_return :: char where "carriage_return = CHR 0x0D"
definition comma :: char where "comma = CHR '',''"

definition special :: "char \<Rightarrow> bool" where
  "special c = (c = comma \<or> c = quote_char \<or> c = newline \<or> c = carriage_return)"

fun escape_quotes :: "string \<Rightarrow> string" where
  "escape_quotes [] = []"
| "escape_quotes (c # cs) =
     (if c = quote_char then quote_char # quote_char # escape_quotes cs
      else c # escape_quotes cs)"

definition csv_field :: "string \<Rightarrow> string" where
  "csv_field s =
     (if list_ex special s then quote_char # escape_quotes s @ [quote_char] else s)"

fun join_comma :: "string list \<Rightarrow> string" where
  "join_comma [] = []"
| "join_comma [f] = f"
| "join_comma (f # g # fs) = f @ comma # join_comma (g # fs)"

definition csv_record :: "string list \<Rightarrow> string" where
  "csv_record cells = join_comma (map csv_field cells) @ [newline]"

definition header :: "string list" where
  "header = [''title'', ''summary'', ''link'', ''source'', ''published_date'']"

definition visible_fields :: "article \<Rightarrow> string list" where
  "visible_fields a =
     [title a, (case summary a of None \<Rightarrow> [] | Some s \<Rightarrow> s), link a, source a,
      published_date a]"

definition to_csv :: "article list \<Rightarrow> string" where
  "to_csv df = concat (map csv_record (header # map visible_fields df))"

subsection \<open>Reading a delimited file back\<close>

text \<open>
  A reader for the dialect above, one character at a time: at the start of a field, inside
  an unquoted field, inside a quoted field, and after a double quote seen inside a quoted
  field. Records end at a line feed outside quotes. The result is \<^verbatim>\<open>None\<close> for a
  file that ends inside quotes or has a character other than comma, line feed or double
  quote after a closing quote.
\<close>

datatype reader_state = StartField | InField | InQuoted | QuoteSeen

fun read_csv ::
  "reader_state \<Rightarrow> string \<Rightarrow> string list \<Rightarrow> string \<Rightarrow> string list list option" where
  "read_csv st f r [] =
     (case st of
        StartField \<Rightarrow> if r = [] then Some [] else Some [r @ [[]]]
      | InField \<Rightarrow> Some [r @ [f]]
      | InQuoted \<Rightarrow> None
      | QuoteSeen \<Rightarrow> Some [r @ [f]])"
| "read_csv st f r (c # cs) =
     (case st of
        StartField \<Rightarrow>
          if c = quote_char then read_csv InQuoted [] r cs
          else if c = comma then read_csv StartField [] (r @ [[]]) cs
          else if c = newline then map_option ((#) (r @ [[]])) (read_csv StartField [] [] cs)
          else read_csv InField [c] r cs
      | InField \<Rightarrow>
          if c = comma then read_csv StartField [] (r @ [f]) cs
          else if c = newline then map_option ((#) (r @ [f])) (read_csv StartField [] [] cs)
          else read_csv InField (f @ [c]) r cs
      | InQuoted \<Rightarrow>
          if c = quote_char then read_csv QuoteSeen f r cs
          else read_csv InQuoted (f @ [c]) r cs
      | QuoteSeen \<Rightarrow>
          if c = quote_char then read_csv InQuoted (f @ [quote_char]) r cs
          else if c = comma then read_csv StartField [] (r @ [f]) cs
          else if c = newline then map_option ((#) (r @ [f])) (read_csv StartField [] [] cs)
          else None)"

definition parse_csv :: "string \<Rightarrow> string list list option" where
  "parse_csv s = read_csv StartField [] [] s"

subsection \<open>\<^verbatim>\<open>export_data\<close>\<close>

text \<open>
  The files are a map from paths to contents. A workbook and a JSON file are kept as the
  data written into them. The write of the library either succeeds or raises; when it
  raises it may have left a partial file at the path. The function catches every
  exception, so a call always returns; what it prints is the list of messages.
\<close>

datatype file_content =
  CsvFile string | ExcelFile "string list list" | JsonFile "article list"

type_synonym files = "string \<Rightarrow> file_content option"

datatype message =
  NoResultsToExport
| Exporting nat string
| ExportedCsv string
| ExportedExcel string
| ExportedJson string
| UnsupportedFormat string
| ExportFailed string

definition write_file ::
  "(string \<times> file_content option) option \<Rightarrow> string \<Rightarrow> file_content \<Rightarrow> files
     \<Rightarrow> string option \<times> files" where
  "write_file fault path content fs =
     (case fault of
        None \<Rightarrow> (None, fs(path \<mapsto> content))
      | Some (e, left) \<Rightarrow>
          (Some e, (case left of None \<Rightarrow> fs | Some part \<Rightarrow> fs(path \<mapsto> part))))"

definition export_data ::
  "(string \<times> file_content option) option \<Rightarrow> article list \<Rightarrow> string \<Rightarrow> string \<Rightarrow> files
     \<Rightarrow> unit outcome \<times> files \<times> message list" where
  "export_data fault df output_file export_format fs =
     (if df = [] then (Returned (), fs, [NoResultsToExport])
      else if export_format = ''csv'' then
        (case write_file fault output_file (CsvFile (to_csv df)) fs of
           (None, fs') \<Rightarrow>
             (Returned (), fs', [Exporting (length df) output_file, ExportedCsv output_file])
         | (Some e, fs') \<Rightarrow>
             (Returned (), fs', [Exporting (length df) output_file, ExportFailed e]))
      else if export_format = ''excel'' then
        (case write_file fault output_file (ExcelFile (header # map visible_fields df)) fs of
           (None, fs') \<Rightarrow>
             (Returned (), fs', [Exporting (length df) output_file, ExportedExcel output_file])
         | (Some e, fs') \<Rightarrow>
             (Returned (), fs', [Exporting (length df) output_file, ExportFailed e]))
      else if export_format = ''json'' then
        (case write_file fault output_file (JsonFile df) fs of
           (None, fs') \<Rightarrow>
             (Returned (), fs', [Exporting (length df) output_file, ExportedJson output_file])
         | (Some e, fs') \<Rightarrow>
             (Returned (), fs', [Exporting (length df) output_file, ExportFailed e]))
      else
        (Returned (), fs, [Exporting (length df) output_file, UnsupportedFormat export_format]))"

definition supported_format :: "string \<Rightarrow> bool" where
  "supported_format f = (f \<in> set [''csv'', ''excel'', ''json''])"



section \<open>Properties of the ingestion\<close>

lemma drop_dups_links:
  "set (map link (drop_dups seen as)) = set (map link as) - set seen"
  by (induction as arbitrary: seen) auto

lemma drop_dups_distinct: "distinct (map link (drop_dups seen as))"
proof (induction as arbitrary: seen)
  case Nil
  then show ?case by simp
next
  case (Cons a as)
  have "link a \<notin> set (map link (drop_dups (link a # seen) as))"
    unfolding drop_dups_links by simp
  with Cons show ?case by simp
qed

lemma drop_dups_length: "length (drop_dups seen as) \<le> length as"
  by (induction as arbitrary: seen) (auto simp: le_SucI)

lemma assign_ids_length [simp]: "length (assign_ids u i as) = length as"
  by (induction as arbitrary: i) auto

lemma assign_ids_cols [simp]: "map cols (assign_ids u i as) = as"
  by (induction as arbitrary: i) auto

lemma assign_ids_row_id: "map row_id (assign_ids u i as) = map u [i..<i + length as]"
  by (induction as arbitrary: i) (auto simp: upt_rec)

lemma assign_ids_links:
  "map (\<lambda>x. link (cols x)) (assign_ids u i as) = map link as"
  by (induction as arbitrary: i) auto

lemma insert_rows_Inl:
  assumes "insert_row (ee i) r st = Inl e"
  shows "\<exists>c1. new_articles_count c1 = new_articles_count c \<and>
           insert_rows ee i (r # rs) st c = insert_rows ee (Suc i) rs st c1"
proof (cases e)
  case IntegrityError
  with assms show ?thesis
    by (intro exI[of _ "c\<lparr>duplicate_count := duplicate_count c + 1\<rparr>"]) simp
next
  case (OperationalError m)
  with assms show ?thesis
    by (intro exI[of _ "c\<lparr>error_lines := error_lines c @ [(title (cols r), e)]\<rparr>"]) simp
next
  case ProgrammingError
  with assms show ?thesis
    by (intro exI[of _ "c\<lparr>error_lines := error_lines c @ [(title (cols r), e)]\<rparr>"]) simp
next
  case ValueError
  with assms show ?thesis
    by (intro exI[of _ "c\<lparr>error_lines := error_lines c @ [(title (cols r), e)]\<rparr>"]) simp
qed

lemma insert_rows_count:
  "insert_rows ee i rs st c = (st', c') \<Longrightarrow>
     new_articles_count c' + duplicate_count c' + int (length (error_lines c'))
       = new_articles_count c + duplicate_count c + int (length (error_lines c)) + int (length rs)"
proof (induction rs arbitrary: i st c)
  case Nil
  then show ?case by simp
next
  case (Cons r rs)
  show ?case
  proof (cases "insert_row (ee i) r st")
    case (Inr st1)
    with Cons.prems Cons.IH[of "Suc i" st1 "c\<lparr>new_articles_count := new_articles_count c + 1\<rparr>"]
    show ?thesis by simp
  next
    case (Inl e)
    show ?thesis
    proof (cases e)
      case IntegrityError
      with Inl Cons.prems Cons.IH[of "Suc i" st "c\<lparr>duplicate_count := duplicate_count c + 1\<rparr>"]
      show ?thesis by simp
    next
      case (OperationalError m)
      with Inl Cons.prems
        Cons.IH[of "Suc i" st "c\<lparr>error_lines := error_lines c @ [(title (cols r), e)]\<rparr>"]
      show ?thesis by simp
    next
      case ProgrammingError
      with Inl Cons.prems
        Cons.IH[of "Suc i" st "c\<lparr>error_lines := error_lines c @ [(title (cols r), e)]\<rparr>"]
      show ?thesis by simp
    next
      case ValueError
      with Inl Cons.prems
        Cons.IH[of "Suc i" st "c\<lparr>error_lines := error_lines c @ [(title (cols r), e)]\<rparr>"]
      show ?thesis by simp
    qed
  qed
qed


lemma insert_rows_all_rejected:
  "\<forall>r\<in>set rs. link (cols r) \<in> set (map (\<lambda>x. link (cols x)) st) \<Longrightarrow>
   insert_rows ee i rs st c = (st', c') \<Longrightarrow>
   st' = st \<and> new_articles_count c' = new_articles_count c"
proof (induction rs arbitrary: i c)
  case Nil
  then show ?case by simp
next
  case (Cons r rs)
  from Cons.prems(1) have "\<exists>e. insert_row (ee i) r st = Inl e"
    by (auto simp: insert_row_def split: option.splits)
  then obtain e where e: "insert_row (ee i) r st = Inl e" by blast
  then have "\<exists>c1. new_articles_count c1 = new_articles_count c \<and> insert_rows ee (Suc i) rs st c1 = (st', c')"
    using Cons.prems(2) insert_rows_Inl[of ee i r st e c rs] by auto
  then obtain c1 where c1: "new_articles_count c1 = new_articles_count c"
    "insert_rows ee (Suc i) rs st c1 = (st', c')" by blast
  from Cons.prems(1) have "\<forall>r\<in>set rs. link (cols r) \<in> set (map (\<lambda>x. link (cols x)) st)" by simp
  from Cons.IH[OF this c1(2)] c1(1) show ?case by simp
qed

lemma insert_rows_all_accepted:
  "distinct (map row_id rs) \<Longrightarrow> distinct (map (\<lambda>x. link (cols x)) rs) \<Longrightarrow>
   set (map row_id rs) \<inter> set (map row_id st) = {} \<Longrightarrow>
   set (map (\<lambda>x. link (cols x)) rs) \<inter> set (map (\<lambda>x. link (cols x)) st) = {} \<Longrightarrow>
   \<forall>k<length rs. ee (i + k) = None \<Longrightarrow>
   insert_rows ee i rs st c =
     (st @ rs, c\<lparr>new_articles_count := new_articles_count c + int (length rs)\<rparr>)"
proof (induction rs arbitrary: i st c)
  case Nil
  then show ?case by simp
next
  case (Cons r rs)
  from Cons.prems(5) have "ee i = None" by force
  with Cons.prems(3,4) have ins: "insert_row (ee i) r st = Inr (st @ [r])"
    by (auto simp: insert_row_def)
  have ee: "\<forall>k<length rs. ee (Suc i + k) = None"
    using Cons.prems(5) by force
  have "insert_rows ee (Suc i) rs (st @ [r]) (c\<lparr>new_articles_count := new_articles_count c + 1\<rparr>)
        = ((st @ [r]) @ rs, (c\<lparr>new_articles_count := new_articles_count c + 1\<rparr>)
             \<lparr>new_articles_count := new_articles_count (c\<lparr>new_articles_count := new_articles_count c + 1\<rparr>) + int (length rs)\<rparr>)"
    using Cons.prems(1-4) by (intro Cons.IH ee) auto
  with ins show ?case by simp
qed

lemma insert_rows_error_lines:
  "insert_rows ee i rs st c = (st', c') \<Longrightarrow>
     length (error_lines c') =
       length (error_lines c) + length (filter (\<lambda>k. ee k \<noteq> None) [i..<i + length rs])"
proof (induction rs arbitrary: i st c)
  case Nil
  then show ?case by simp
next
  case (Cons r rs)
  have upt: "[i..<i + length (r # rs)] = i # [Suc i..<Suc i + length rs]"
    by (simp add: upt_rec)
  show ?case
  proof (cases "ee i")
    case None
    show ?thesis
    proof (cases "row_id r \<in> set (map row_id st) \<or> link (cols r) \<in> set (map (\<lambda>x. link (cols x)) st)")
      case True
      with None have "insert_row (ee i) r st = Inl IntegrityError"
        by (simp add: insert_row_def)
      with Cons.prems
      have "insert_rows ee (Suc i) rs st (c\<lparr>duplicate_count := duplicate_count c + 1\<rparr>) = (st', c')"
        by simp
      from Cons.IH[OF this] None show ?thesis unfolding upt by simp
    next
      case False
      with None have "insert_row (ee i) r st = Inr (st @ [r])"
        by (simp add: insert_row_def)
      with Cons.prems
      have "insert_rows ee (Suc i) rs (st @ [r]) (c\<lparr>new_articles_count := new_articles_count c + 1\<rparr>) = (st', c')"
        by simp
      from Cons.IH[OF this] None show ?thesis unfolding upt by simp
    qed
  next
    case (Some m)
    then have "insert_row (ee i) r st = Inl (OperationalError m)"
      by (simp add: insert_row_def)
    with Cons.prems
    have "insert_rows ee (Suc i) rs st
            (c\<lparr>error_lines := error_lines c @ [(title (cols r), OperationalError m)]\<rparr>) = (st', c')"
      by simp
    from Cons.IH[OF this] Some show ?thesis unfolding upt by simp
  qed
qed

lemma save_articles_Saved:
  assumes "articles \<noteq> []" "connect_error env = None" "commit_error env = None"
  shows "\<exists>st' c. save_articles env uuid4 articles st =
            (st', Saved \<lparr>attempted = int (length articles), inserted = new_articles_count c,
                         duplicates = int (length articles) - new_articles_count c\<rparr> c) \<and>
          insert_rows (execute_error env) 0 (assign_ids uuid4 0 (drop_duplicates articles)) st
            \<lparr>new_articles_count = 0, duplicate_count = 0, error_lines = []\<rparr> = (st', c)"
  using assms by (simp add: save_articles_def Let_def split: prod.splits)

text \<open>
  Claim C1. Every report printed by \<^verbatim>\<open>save_articles\<close> satisfies
  \<open>inserted + duplicates = attempted\<close>, and running the same batch a second time, after a
  first run on the empty table, reports \<open>inserted = 0\<close> and leaves the table as the first
  run left it. The first run is taken without failures of the store and with pairwise distinct
  generated identifiers; the second run may generate any identifiers and may hit failures
  on its inserts. An empty batch returns early: nothing is printed but
  \<^verbatim>\<open>No articles to save.\<close>, and the table is not touched.
\<close>

theorem save_articles_accounting_idempotent:
  assumes faults1: "no_store_faults env1 (length (drop_duplicates B))"
    and fresh: "distinct (map uuid1 [0..<length (drop_duplicates B)])"
    and conn2: "connect_error env2 = None" "commit_error env2 = None"
  shows "(B = [] \<longrightarrow> save_articles env1 uuid1 B [] = ([], NothingToSave)) \<and>
         (B \<noteq> [] \<longrightarrow>
           (\<exists>st1 r1 c1 r2 c2.
              save_articles env1 uuid1 B [] = (st1, Saved r1 c1) \<and>
              inserted r1 + duplicates r1 = attempted r1 \<and>
              save_articles env2 uuid2 B st1 = (st1, Saved r2 c2) \<and>
              inserted r2 + duplicates r2 = attempted r2 \<and>
              inserted r2 = 0))"
proof (intro conjI impI)
  assume "B = []"
  then show "save_articles env1 uuid1 B [] = ([], NothingToSave)"
    by (simp add: save_articles_def)
next
  assume ne: "B \<noteq> []"
  let ?c0 = "\<lparr>new_articles_count = 0, duplicate_count = 0, error_lines = []\<rparr>"
  let ?rows1 = "assign_ids uuid1 0 (drop_duplicates B)"
  let ?rows2 = "assign_ids uuid2 0 (drop_duplicates B)"
  from faults1 have c1: "connect_error env1 = None" "commit_error env1 = None"
    and ee: "\<forall>k<length ?rows1. execute_error env1 (0 + k) = None"
    by (auto simp: no_store_faults_def list_all_iff)
  have links1: "map (\<lambda>x. link (cols x)) ?rows1 = map link (drop_duplicates B)"
    by (rule assign_ids_links)
  have links2: "map (\<lambda>x. link (cols x)) ?rows2 = map link (drop_duplicates B)"
    by (rule assign_ids_links)
  have d_id: "distinct (map row_id ?rows1)"
    using fresh by (simp add: assign_ids_row_id)
  have d_link: "distinct (map (\<lambda>x. link (cols x)) ?rows1)"
    using drop_dups_distinct[of "[]" B] by (simp add: assign_ids_links drop_duplicates_def)
  have run1: "insert_rows (execute_error env1) 0 ?rows1 [] ?c0 =
                ([] @ ?rows1, ?c0\<lparr>new_articles_count := new_articles_count ?c0 + int (length ?rows1)\<rparr>)"
    using d_id d_link ee by (intro insert_rows_all_accepted) simp_all
  from save_articles_Saved[OF ne c1, of uuid1 "[]"]
  obtain st1 c1' where s1': "save_articles env1 uuid1 B [] =
        (st1, Saved \<lparr>attempted = int (length B), inserted = new_articles_count c1',
                     duplicates = int (length B) - new_articles_count c1'\<rparr> c1')"
    and l1: "insert_rows (execute_error env1) 0 ?rows1 [] ?c0 = (st1, c1')"
    by blast
  define r1 where "r1 = \<lparr>attempted = int (length B), inserted = new_articles_count c1',
                    duplicates = int (length B) - new_articles_count c1'\<rparr>"
  from l1 run1 have "st1 = ?rows1" by simp
  with s1' have s1: "save_articles env1 uuid1 B [] = (?rows1, Saved r1 c1')"
    by (simp add: r1_def)
  have r1: "inserted r1 + duplicates r1 = attempted r1"
    by (simp add: r1_def)
  from save_articles_Saved[OF ne conn2, of uuid2 ?rows1]
  obtain st2 c2 where s2: "save_articles env2 uuid2 B ?rows1 =
        (st2, Saved \<lparr>attempted = int (length B), inserted = new_articles_count c2,
                     duplicates = int (length B) - new_articles_count c2\<rparr> c2)"
    and l2: "insert_rows (execute_error env2) 0 ?rows2 ?rows1 ?c0 = (st2, c2)"
    by blast
  have "\<forall>r\<in>set ?rows2. link (cols r) \<in> set (map (\<lambda>x. link (cols x)) ?rows1)"
  proof
    fix r assume "r \<in> set ?rows2"
    then have "link (cols r) \<in> set (map (\<lambda>x. link (cols x)) ?rows2)" by simp
    then show "link (cols r) \<in> set (map (\<lambda>x. link (cols x)) ?rows1)"
      unfolding links1 links2 .
  qed
  from insert_rows_all_rejected[OF this l2]
  have "st2 = ?rows1" "new_articles_count c2 = 0" by simp_all
  with s1 r1 s2 show "\<exists>st1 r1 c1 r2 c2.
              save_articles env1 uuid1 B [] = (st1, Saved r1 c1) \<and>
              inserted r1 + duplicates r1 = attempted r1 \<and>
              save_articles env2 uuid2 B st1 = (st1, Saved r2 c2) \<and>
              inserted r2 + duplicates r2 = attempted r2 \<and>
              inserted r2 = 0"
    by (intro exI[of _ ?rows1] exI[of _ r1] exI[of _ c1']
          exI[of _ "\<lparr>attempted = int (length B), inserted = new_articles_count c2,
                     duplicates = int (length B) - new_articles_count c2\<rparr>"] exI[of _ c2]) simp
qed

theorem save_articles_accounting_idempotent_witness:
  "no_store_faults env_ok (length (drop_duplicates [example_article ''A'' ''L1'', example_article ''B'' ''L2'', example_article ''C'' ''L1''])) \<and>
   distinct (map uuid_example [0..<length (drop_duplicates [example_article ''A'' ''L1'', example_article ''B'' ''L2'', example_article ''C'' ''L1''])]) \<and>
   (\<exists>st1 r1 c1 r2 c2.
      save_articles env_ok uuid_example [example_article ''A'' ''L1'', example_article ''B'' ''L2'', example_article ''C'' ''L1''] [] = (st1, Saved r1 c1) \<and>
      inserted r1 + duplicates r1 = attempted r1 \<and>
      save_articles env_ok uuid_example [example_article ''A'' ''L1'', example_article ''B'' ''L2'', example_article ''C'' ''L1''] st1 = (st1, Saved r2 c2) \<and>
      inserted r2 + duplicates r2 = attempted r2 \<and>
      inserted r2 = 0)"
proof -
  let ?B = "[example_article ''A'' ''L1'', example_article ''B'' ''L2'', example_article ''C'' ''L1'']"
  have dd: "drop_duplicates ?B = [example_article ''A'' ''L1'', example_article ''B'' ''L2'']"
    by (simp add: drop_duplicates_def example_article_def)
  have h1: "no_store_faults env_ok (length (drop_duplicates ?B))"
    by (simp add: dd no_store_faults_def env_ok_def)
  have h2: "distinct (map uuid_example [0..<length (drop_duplicates ?B)])"
    by (simp add: dd uuid_example_def upt_rec)
  have h3: "connect_error env_ok = None" and h4: "commit_error env_ok = None"
    by (simp_all add: env_ok_def)
  from save_articles_accounting_idempotent[OF h1 h2 h3 h4, of uuid_example] h1 h2
  show ?thesis by simp
qed

text \<open>
  Claim C2. With \<open>L1\<close> in the table and \<open>L3\<close> not, the batch of three records with
  links \<open>L1\<close>, \<open>L3\<close>, \<open>L3\<close> is reported as attempted 3, inserted 1, duplicates 2:
  the second \<open>L3\<close> record is dropped by \<^verbatim>\<open>drop_duplicates\<close>, the \<open>L1\<close> record raises
  \<^verbatim>\<open>IntegrityError\<close>, and the first \<open>L3\<close> record is the one appended to the table.
\<close>

theorem save_articles_scenario:
  assumes L1: "link_stored st (link a1)"
    and L3: "\<not> link_stored st (link a3)"
    and same: "link a3' = link a3"
    and fresh: "uuid4 1 \<notin> set (map row_id st)"
    and env: "no_store_faults env 2"
  shows "drop_duplicates [a1, a3, a3'] = [a1, a3] \<and>
         save_articles env uuid4 [a1, a3, a3'] st =
           (st @ [\<lparr>row_id = uuid4 1, cols = a3\<rparr>],
            Saved \<lparr>attempted = 3, inserted = 1, duplicates = 2\<rparr>
                  \<lparr>new_articles_count = 1, duplicate_count = 1, error_lines = []\<rparr>)"
proof -
  from L1 L3 have neq: "link a1 \<noteq> link a3" by (auto simp: link_stored_def)
  then have dd: "drop_duplicates [a1, a3, a3'] = [a1, a3]"
    using same by (auto simp: drop_duplicates_def)
  from env have e: "connect_error env = None" "commit_error env = None"
    "execute_error env 0 = None" "execute_error env (Suc 0) = None"
    by (simp_all add: no_store_faults_def upt_rec)
  have i0: "insert_row None \<lparr>row_id = uuid4 0, cols = a1\<rparr> st = Inl IntegrityError"
    using L1 by (simp add: insert_row_def link_stored_def)
  have i1: "insert_row None \<lparr>row_id = uuid4 (Suc 0), cols = a3\<rparr> st
              = Inr (st @ [\<lparr>row_id = uuid4 (Suc 0), cols = a3\<rparr>])"
    using L3 fresh by (simp add: insert_row_def link_stored_def)
  show ?thesis
    by (simp add: dd save_articles_def e i0 i1)
qed

theorem save_articles_scenario_witness:
  "link_stored [\<lparr>row_id = ''x1'', cols = example_article ''Old'' ''L1''\<rparr>,
                \<lparr>row_id = ''x2'', cols = example_article ''Older'' ''L2''\<rparr>] (link (example_article ''A'' ''L1'')) \<and>
   \<not> link_stored [\<lparr>row_id = ''x1'', cols = example_article ''Old'' ''L1''\<rparr>,
                \<lparr>row_id = ''x2'', cols = example_article ''Older'' ''L2''\<rparr>] (link (example_article ''B'' ''L3'')) \<and>
   save_articles env_ok uuid_example
      [example_article ''A'' ''L1'', example_article ''B'' ''L3'', example_article ''C'' ''L3'']
      [\<lparr>row_id = ''x1'', cols = example_article ''Old'' ''L1''\<rparr>,
       \<lparr>row_id = ''x2'', cols = example_article ''Older'' ''L2''\<rparr>]
   = ([\<lparr>row_id = ''x1'', cols = example_article ''Old'' ''L1''\<rparr>,
       \<lparr>row_id = ''x2'', cols = example_article ''Older'' ''L2''\<rparr>,
       \<lparr>row_id = ''uu'', cols = example_article ''B'' ''L3''\<rparr>],
      Saved \<lparr>attempted = 3, inserted = 1, duplicates = 2\<rparr>
            \<lparr>new_articles_count = 1, duplicate_count = 1, error_lines = []\<rparr>)"
proof -
  let ?st = "[\<lparr>row_id = ''x1'', cols = example_article ''Old'' ''L1''\<rparr>,
              \<lparr>row_id = ''x2'', cols = example_article ''Older'' ''L2''\<rparr>]"
  have h1: "link_stored ?st (link (example_article ''A'' ''L1''))"
    by (simp add: link_stored_def example_article_def)
  have h2: "\<not> link_stored ?st (link (example_article ''B'' ''L3''))"
    by (simp add: link_stored_def example_article_def)
  have h3: "link (example_article ''C'' ''L3'') = link (example_article ''B'' ''L3'')"
    by (simp add: example_article_def)
  have h4: "uuid_example 1 \<notin> set (map row_id ?st)"
    by (simp add: uuid_example_def)
  have h5: "no_store_faults env_ok 2"
    by (simp add: no_store_faults_def env_ok_def list_all_iff)
  have u: "uuid_example 1 = ''uu''"
    by (simp add: uuid_example_def)
  from save_articles_scenario[of ?st "example_article ''A'' ''L1''" "example_article ''B'' ''L3''"
         "example_article ''C'' ''L3''" uuid_example env_ok, OF h1 h2 h3 h4 h5] h1 h2 u
  show ?thesis by simp
qed

text \<open>
  Claim C10. The printed number of duplicates is \<open>attempted - inserted\<close>. It is the
  number of rows dropped inside the batch, plus the number of \<^verbatim>\<open>IntegrityError\<close>s
  (the only thing \<^verbatim>\<open>duplicate_count\<close> counts), plus the number of inserts that failed
  for another reason of the store; the identity \<open>inserted + duplicates = attempted\<close>
  holds whatever happened.
\<close>

theorem save_articles_duplicates_by_subtraction:
  assumes "articles \<noteq> []" "connect_error env = None" "commit_error env = None"
  shows "\<exists>st' r c. save_articles env uuid4 articles st = (st', Saved r c) \<and>
           duplicates r = attempted r - inserted r \<and>
           inserted r + duplicates r = attempted r \<and>
           duplicates r =
             int (length articles - length (drop_duplicates articles))
             + duplicate_count c
             + int (length (filter (\<lambda>k. execute_error env k \<noteq> None)
                                   [0..<length (drop_duplicates articles)]))"
proof -
  let ?c0 = "\<lparr>new_articles_count = 0, duplicate_count = 0, error_lines = []\<rparr>"
  let ?rows = "assign_ids uuid4 0 (drop_duplicates articles)"
  from save_articles_Saved[OF assms, of uuid4 st]
  obtain st' c where s: "save_articles env uuid4 articles st =
        (st', Saved \<lparr>attempted = int (length articles), inserted = new_articles_count c,
                     duplicates = int (length articles) - new_articles_count c\<rparr> c)"
    and l: "insert_rows (execute_error env) 0 ?rows st ?c0 = (st', c)"
    by blast
  from insert_rows_count[OF l]
  have cnt: "new_articles_count c + duplicate_count c + int (length (error_lines c))
             = int (length (drop_duplicates articles))" by simp
  from insert_rows_error_lines[OF l]
  have err: "length (error_lines c) =
      length (filter (\<lambda>k. execute_error env k \<noteq> None) [0..<length (drop_duplicates articles)])"
    by simp
  have le: "length (drop_duplicates articles) \<le> length articles"
    unfolding drop_duplicates_def by (rule drop_dups_length)
  show ?thesis
    using s cnt err le
    by (intro exI[of _ st'] exI[of _ "\<lparr>attempted = int (length articles), inserted = new_articles_count c,
                     duplicates = int (length articles) - new_articles_count c\<rparr>"] exI[of _ c])
       (simp add: of_nat_diff)
qed

theorem save_articles_duplicates_by_subtraction_witness:
  "[example_article ''A'' ''L1'', example_article ''B'' ''L2''] \<noteq> [] \<and>
   connect_error env_fault0 = None \<and> commit_error env_fault0 = None \<and>
   (\<exists>st' r c. save_articles env_fault0 uuid_example [example_article ''A'' ''L1'', example_article ''B'' ''L2''] [] = (st', Saved r c) \<and>
           duplicates r = attempted r - inserted r \<and>
           inserted r + duplicates r = attempted r \<and>
           duplicates r =
             int (length [example_article ''A'' ''L1'', example_article ''B'' ''L2''] - length (drop_duplicates [example_article ''A'' ''L1'', example_article ''B'' ''L2'']))
             + duplicate_count c
             + int (length (filter (\<lambda>k. execute_error env_fault0 k \<noteq> None)
                                   [0..<length (drop_duplicates [example_article ''A'' ''L1'', example_article ''B'' ''L2''])])))"
proof -
  have h1: "[example_article ''A'' ''L1'', example_article ''B'' ''L2''] \<noteq> []" by simp
  have h2: "connect_error env_fault0 = None" and h3: "commit_error env_fault0 = None"
    by (simp_all add: env_fault0_def)
  from save_articles_duplicates_by_subtraction[OF h1 h2 h3, of uuid_example "[]"] h2 h3
  show ?thesis by simp
qed

section \<open>Properties of the queries\<close>

lemma mset_insert_desc: "mset (insert_desc r xs) = add_mset r (mset xs)"
  by (induction xs) auto

lemma mset_order_by: "mset (order_by_published_date_desc xs) = mset xs"
  unfolding order_by_published_date_desc_def
  by (induction xs) (auto simp: mset_insert_desc)

lemma set_insert_desc: "set (insert_desc r xs) = insert r (set xs)"
  by (induction xs) auto

lemma sorted_insert_desc:
  "sorted_wrt date_desc xs \<Longrightarrow> sorted_wrt date_desc (insert_desc r xs)"
  by (induction xs) (auto simp: set_insert_desc)

lemma sorted_order_by: "sorted_wrt date_desc (order_by_published_date_desc xs)"
  unfolding order_by_published_date_desc_def
  by (induction xs) (auto intro: sorted_insert_desc)

lemma filter_insert_desc:
  "sorted_wrt date_desc xs \<Longrightarrow>
   filter (\<lambda>x. published_date (cols x) = d) (insert_desc r xs) =
     (if published_date (cols r) = d then r # filter (\<lambda>x. published_date (cols x) = d) xs
      else filter (\<lambda>x. published_date (cols x) = d) xs)"
proof (induction xs)
  case Nil
  then show ?case by simp
next
  case (Cons x xs)
  show ?case
  proof (cases "published_date (cols r) < published_date (cols x)")
    case True
    with Cons show ?thesis by auto
  next
    case False
    then show ?thesis by simp
  qed
qed

lemma filter_order_by:
  "filter (\<lambda>x. published_date (cols x) = d) (order_by_published_date_desc xs) =
   filter (\<lambda>x. published_date (cols x) = d) xs"
proof (induction xs)
  case Nil
  then show ?case by (simp add: order_by_published_date_desc_def)
next
  case (Cons x xs)
  have s: "sorted_wrt date_desc (foldr insert_desc xs [])"
    using sorted_order_by[of xs] by (simp add: order_by_published_date_desc_def)
  from Cons filter_insert_desc[OF s, of d x] show ?case
    by (simp add: order_by_published_date_desc_def)
qed

lemma build_query_no_constraints:
  "no_constraints a \<Longrightarrow> build_query a = (([], []), [])"
  by (simp add: no_constraints_def build_query_def)

lemma read_sql_query_all:
  "read_sql_query ([], []) st = Inr (order_by_published_date_desc st)"
  by (simp add: read_sql_query_def where_holds_def)

lemma build_query_invalid_date:
  assumes "truthy (args_date a) = Some d" "strptime d = Inl e"
  shows "build_query a = (fst (build_query (a\<lparr>args_date := None\<rparr>)), [d])"
  using assms by (simp add: build_query_def truthy_def split: option.splits prod.splits)

lemma execute_query_healthy:
  assumes "connect_error env = None" "read_error env = None"
  shows "execute_query env a st =
           \<lparr>result = Returned (map cols (order_by_published_date_desc
               (filter (\<lambda>r. source_matches a (cols r) \<and> keyword_matches a (cols r)
                             \<and> date_matches a (cols r)) st))),
            warnings = snd (build_query a), failure_line = None\<rparr>"
proof -
  obtain q ps ws where b: "build_query a = ((q, ps), ws)"
    by (metis surj_pair)
  have bnd: "list_all (bound ps) q"
    using b by (auto simp: build_query_def bound_def split: option.splits sum.splits)
  have wh: "where_holds q ps = (\<lambda>r. source_matches a (cols r) \<and> keyword_matches a (cols r)
                             \<and> date_matches a (cols r))"
    using b
    by (auto simp: build_query_def where_holds_def source_matches_def keyword_matches_def
          date_matches_def fun_eq_iff split: option.splits sum.splits)
  show ?thesis
    using assms b bnd by (simp add: execute_query_def read_sql_query_def wh)
qed

lemma strptime_invalid_example: "strptime ''2024-13-40'' = Inl ValueError"
  by (simp add: strptime_def format_regex_match_def match_m_def match_d_def is_digit_def
        in_range_def digit_val_def)

text \<open>
  Claim C3. With no source, keyword or date set (\<^verbatim>\<open>None\<close> or the empty string), and a
  store that answers, \<^verbatim>\<open>execute_query\<close> returns every stored record once, in
  descending order of \<^verbatim>\<open>published_date\<close>, the records of one date in the order of the
  table.
\<close>

theorem execute_query_no_constraints:
  assumes "no_constraints a" "connect_error env = None" "read_error env = None"
  shows "\<exists>rs. execute_query env a st = \<lparr>result = Returned rs, warnings = [], failure_line = None\<rparr> \<and>
           mset rs = mset (map cols st) \<and>
           sorted_wrt (\<lambda>x y. published_date y \<le> published_date x) rs \<and>
           (\<forall>d. filter (\<lambda>x. published_date x = d) rs
                = filter (\<lambda>x. published_date x = d) (map cols st))"
proof -
  let ?rs = "map cols (order_by_published_date_desc st)"
  have e: "execute_query env a st = \<lparr>result = Returned ?rs, warnings = [], failure_line = None\<rparr>"
    using assms by (simp add: execute_query_def build_query_no_constraints read_sql_query_all)
  have m: "mset ?rs = mset (map cols st)"
    using mset_order_by[of st] by (metis mset_map)
  have s: "sorted_wrt (\<lambda>x y. published_date y \<le> published_date x) ?rs"
    using sorted_order_by[of st] by (simp add: sorted_wrt_map)
  have f: "\<forall>d. filter (\<lambda>x. published_date x = d) ?rs
               = filter (\<lambda>x. published_date x = d) (map cols st)"
    using filter_order_by[of _ st] by (simp add: filter_map comp_def)
  from e m s f show ?thesis by blast
qed

theorem execute_query_no_constraints_witness:
  "no_constraints (no_filter\<lparr>args_keyword := Some ''''\<rparr>) \<and>
   connect_error env_ok = None \<and> read_error env_ok = None \<and>
   (\<exists>rs. execute_query env_ok (no_filter\<lparr>args_keyword := Some ''''\<rparr>) example_store
            = \<lparr>result = Returned rs, warnings = [], failure_line = None\<rparr> \<and>
         mset rs = mset (map cols example_store) \<and>
         sorted_wrt (\<lambda>x y. published_date y \<le> published_date x) rs \<and>
         (\<forall>d. filter (\<lambda>x. published_date x = d) rs
              = filter (\<lambda>x. published_date x = d) (map cols example_store)))"
proof -
  have h1: "no_constraints (no_filter\<lparr>args_keyword := Some ''''\<rparr>)"
    by (simp add: no_constraints_def no_filter_def truthy_def)
  have h2: "connect_error env_ok = None" and h3: "read_error env_ok = None"
    by (simp_all add: env_ok_def)
  from execute_query_no_constraints[OF h1 h2 h3, of example_store] h1 h2 h3
  show ?thesis by simp
qed

text \<open>The unfiltered query on the table of three rows.\<close>

lemma execute_query_example:
  "result (execute_query env_ok no_filter example_store) =
     Returned [example_article ''B'' ''L2'',
               (example_article ''A'' ''L1'')\<lparr>published_date := ''2024-10-24''\<rparr>,
               (example_article ''C'' ''L3'')\<lparr>published_date := ''2024-10-24''\<rparr>]"
  by (simp add: execute_query_def build_query_def no_filter_def truthy_def env_ok_def
        read_sql_query_def where_holds_def order_by_published_date_desc_def example_store_def
        example_article_def)

text \<open>
  Claim C4. A date that passes the test \<^verbatim>\<open>if args.date:\<close> and that \<^verbatim>\<open>strptime\<close>
  rejects is printed in a warning and adds no fragment to the statement: the query is the
  one built without a date, the source and keyword filters still apply, and the
  \<^verbatim>\<open>ValueError\<close> does not leave the function.
\<close>

theorem build_query_invalid_date_ignored:
  assumes "truthy (args_date a) = Some d" and "strptime d = Inl e"
  shows "build_query a = (fst (build_query (a\<lparr>args_date := None\<rparr>)), [d]) \<and>
         DateEq \<notin> set (fst (fst (build_query a))) \<and>
         execute_query env a st = (execute_query env (a\<lparr>args_date := None\<rparr>) st)\<lparr>warnings := [d]\<rparr> \<and>
         result (execute_query env a st) \<noteq> Raised ValueError \<and>
         (connect_error env = None \<and> read_error env = None \<longrightarrow>
            execute_query env a st =
              \<lparr>result = Returned (map cols (order_by_published_date_desc
                  (filter (\<lambda>r. source_matches a (cols r) \<and> keyword_matches a (cols r)) st))),
               warnings = [d], failure_line = None\<rparr>)"
proof -
  have b: "build_query a = (fst (build_query (a\<lparr>args_date := None\<rparr>)), [d])"
    by (rule build_query_invalid_date[OF assms])
  have w0: "snd (build_query (a\<lparr>args_date := None\<rparr>)) = []"
    by (simp add: build_query_def truthy_def split: option.splits prod.splits)
  have nd: "DateEq \<notin> set (fst (fst (build_query a)))"
    using assms by (auto simp: build_query_def split: option.splits)
  have ex: "execute_query env a st = (execute_query env (a\<lparr>args_date := None\<rparr>) st)\<lparr>warnings := [d]\<rparr>"
    using w0 unfolding execute_query_def b
    by (cases "build_query (a\<lparr>args_date := None\<rparr>)")
       (auto split: option.splits sum.splits)
  have nr: "result (execute_query env a st) \<noteq> Raised ValueError"
    by (auto simp: execute_query_def split: option.splits sum.splits prod.splits)
  have dm: "\<And>r. date_matches a r"
    using assms by (simp add: date_matches_def)
  have h: "connect_error env = None \<and> read_error env = None \<longrightarrow>
            execute_query env a st =
              \<lparr>result = Returned (map cols (order_by_published_date_desc
                  (filter (\<lambda>r. source_matches a (cols r) \<and> keyword_matches a (cols r)) st))),
               warnings = [d], failure_line = None\<rparr>"
    using execute_query_healthy[of env a st] b dm by simp
  from b nd ex nr h show ?thesis by blast
qed

theorem build_query_invalid_date_ignored_witness:
  "truthy (args_date (no_filter\<lparr>args_date := Some ''2024-13-40''\<rparr>)) = Some ''2024-13-40'' \<and>
   strptime ''2024-13-40'' = Inl ValueError \<and>
   build_query (no_filter\<lparr>args_date := Some ''2024-13-40''\<rparr>) = (([], []), [''2024-13-40'']) \<and>
   execute_query env_ok (no_filter\<lparr>args_date := Some ''2024-13-40''\<rparr>) example_store =
     \<lparr>result = Returned [example_article ''B'' ''L2'',
               (example_article ''A'' ''L1'')\<lparr>published_date := ''2024-10-24''\<rparr>,
               (example_article ''C'' ''L3'')\<lparr>published_date := ''2024-10-24''\<rparr>],
      warnings = [''2024-13-40''], failure_line = None\<rparr>"
proof -
  let ?a = "no_filter\<lparr>args_date := Some ''2024-13-40''\<rparr>"
  have h1: "truthy (args_date ?a) = Some ''2024-13-40''"
    by (simp add: truthy_def no_filter_def)
  have h2: "strptime ''2024-13-40'' = Inl ValueError"
    by (rule strptime_invalid_example)
  have a0: "?a\<lparr>args_date := None\<rparr> = no_filter"
    by (simp add: no_filter_def)
  have b0: "build_query no_filter = (([], []), [])"
    by (simp add: build_query_def no_filter_def truthy_def)
  have e0: "execute_query env_ok no_filter example_store =
     \<lparr>result = Returned [example_article ''B'' ''L2'',
               (example_article ''A'' ''L1'')\<lparr>published_date := ''2024-10-24''\<rparr>,
               (example_article ''C'' ''L3'')\<lparr>published_date := ''2024-10-24''\<rparr>],
      warnings = [], failure_line = None\<rparr>"
    by (simp add: execute_query_def b0 env_ok_def
        read_sql_query_def where_holds_def order_by_published_date_desc_def example_store_def
        example_article_def)
  from build_query_invalid_date_ignored[OF h1 h2, of env_ok example_store] h1 h2
  show ?thesis by (simp add: a0 b0 e0)
qed

text \<open>
  An empty date string fails the test \<^verbatim>\<open>if args.date:\<close>: it is treated as no date, and
  no warning is printed.
\<close>

lemma build_query_empty_date:
  "build_query (no_filter\<lparr>args_date := Some []\<rparr>) = (([], []), [])"
  by (simp add: build_query_def no_filter_def truthy_def)

subsection \<open>\<^verbatim>\<open>LIKE\<close> and substrings\<close>

lemma like_percent: "like [CHR ''%''] s"
  by (induction s) auto

lemma like_prefix:
  "wildcard_free pat \<Longrightarrow>
   like (pat @ [CHR ''%'']) s = (take (length pat) (map lower_char s) = map lower_char pat)"
proof (induction pat arbitrary: s)
  case Nil
  then show ?case by (simp add: like_percent)
next
  case (Cons p ps)
  then have wf: "wildcard_free ps" and p: "p \<noteq> CHR ''%''" "p \<noteq> CHR ''_''"
    by (auto simp: wildcard_free_def)
  show ?case
  proof (cases s)
    case Nil
    with p show ?thesis by simp
  next
    case (Cons c cs)
    with p Cons.IH[OF wf, of cs] show ?thesis by auto
  qed
qed

lemma like_contains:
  assumes "wildcard_free pat"
  shows "like (CHR ''%'' # pat @ [CHR ''%'']) s = contains_ci pat s"
proof (induction s)
  case Nil
  have "like (pat @ [CHR ''%'']) [] = (pat = [])"
    using like_prefix[OF assms, of "[]"] by auto
  then show ?case by simp
next
  case (Cons c cs)
  then show ?case
    using like_prefix[OF assms, of "c # cs"] by simp
qed

lemma contains_ci_iff:
  "contains_ci pat s = (\<exists>pre mid post. s = pre @ mid @ post \<and> map lower_char mid = map lower_char pat)"
proof (induction s)
  case Nil
  then show ?case by auto
next
  case (Cons c cs)
  show ?case
  proof
    assume "contains_ci pat (c # cs)"
    then consider "take (length pat) (map lower_char (c # cs)) = map lower_char pat"
      | "contains_ci pat cs" by auto
    then show "\<exists>pre mid post. c # cs = pre @ mid @ post \<and> map lower_char mid = map lower_char pat"
    proof cases
      case 1
      then have "map lower_char (take (length pat) (c # cs)) = map lower_char pat"
        by (simp only: take_map)
      moreover have "c # cs = [] @ take (length pat) (c # cs) @ drop (length pat) (c # cs)"
        by simp
      ultimately show ?thesis by blast
    next
      case 2
      with Cons obtain pre mid post where "cs = pre @ mid @ post" "map lower_char mid = map lower_char pat"
        by blast
      then have "c # cs = (c # pre) @ mid @ post" by simp
      with \<open>map lower_char mid = map lower_char pat\<close> show ?thesis by blast
    qed
  next
    assume "\<exists>pre mid post. c # cs = pre @ mid @ post \<and> map lower_char mid = map lower_char pat"
    then obtain pre mid post where s: "c # cs = pre @ mid @ post"
      and m: "map lower_char mid = map lower_char pat" by blast
    from m have len: "length mid = length pat" by (metis length_map)
    show "contains_ci pat (c # cs)"
    proof (cases pre)
      case Nil
      with s have "c # cs = mid @ post" by simp
      then have "take (length pat) (map lower_char (c # cs)) = map lower_char mid"
        using len by (simp only: map_append) simp
      with m show ?thesis by simp
    next
      case (Cons p pre')
      with s have "cs = pre' @ mid @ post" by simp
      with m Cons.IH have "contains_ci pat cs" by blast
      then show ?thesis by simp
    qed
  qed
qed

text \<open>
  For patterns without \<^verbatim>\<open>%\<close> and \<^verbatim>\<open>_\<close> the two filters are the substring tests,
  without regard to the case of the letters A to Z.
\<close>

lemma filters_are_substring_matches:
  assumes "truthy (args_source a) = Some s" "wildcard_free s"
    and "truthy (args_keyword a) = Some k" "wildcard_free k"
  shows "source_matches a r = contains_ci s (source r)"
    and "keyword_matches a r =
           (contains_ci k (title r) \<or> (case summary r of None \<Rightarrow> False | Some t \<Rightarrow> contains_ci k t))"
  using assms like_contains[of s] like_contains[of k]
  by (auto simp: source_matches_def keyword_matches_def split: option.splits)

text \<open>
  Claim C7, at an input where it fails. The pattern is spliced between two \<^verbatim>\<open>%\<close>
  without escaping, so an underscore or a percent sign typed by the user is a wildcard:
  the source filter \<^verbatim>\<open>Tech_Weekly\<close> returns a record whose source is
  \<^verbatim>\<open>SourceA (Tech Weekly)\<close>, which does not contain \<^verbatim>\<open>Tech_Weekly\<close>.
\<close>

theorem execute_query_like_wildcard:
  "result (execute_query env_ok (no_filter\<lparr>args_source := Some ''Tech_Weekly''\<rparr>)
             [\<lparr>row_id = ''x1'', cols = example_article ''A'' ''L1''\<rparr>])
     = Returned [example_article ''A'' ''L1''] \<and>
   \<not> contains_ci ''Tech_Weekly'' (source (example_article ''A'' ''L1''))"
  by code_simp


section \<open>Properties of the mock source, of the export and of the failures\<close>

lemma lower_sources:
  "lower ''SourceA (Tech Weekly)'' = ''sourcea (tech weekly)''"
  "lower ''SourceB (Finance News)'' = ''sourceb (finance news)''"
  "lower ''SourceC (Policy Hub)'' = ''sourcec (policy hub)''"
  by code_simp+

text \<open>
  Claim C9. Without a filter (\<^verbatim>\<open>None\<close> or the empty string) \<^verbatim>\<open>fetch_mock_data\<close>
  returns the five mock articles. With a filter it keeps the articles whose lowered source
  is equal to the lowered filter, in their order: the three of
  \<^verbatim>\<open>SourceA (Tech Weekly)\<close>, the one of \<^verbatim>\<open>SourceB (Finance News)\<close>, the one of
  \<^verbatim>\<open>SourceC (Policy Hub)\<close>, or none. The instance below shows that a substring of a
  source, such as \<^verbatim>\<open>SourceA\<close>, selects nothing.
\<close>

theorem fetch_mock_data_exact_source:
  "(truthy f = None \<longrightarrow>
      fetch_mock_data t y f = all_articles t y \<and> length (fetch_mock_data t y f) = 5) \<and>
   (\<forall>s. truthy f = Some s \<longrightarrow>
      fetch_mock_data t y f = filter (\<lambda>a. lower (source a) = lower s) (all_articles t y) \<and>
      fetch_mock_data t y f =
        (if lower s = ''sourcea (tech weekly)''
         then [all_articles t y ! 0, all_articles t y ! 2, all_articles t y ! 4]
         else if lower s = ''sourceb (finance news)'' then [all_articles t y ! 1]
         else if lower s = ''sourcec (policy hub)'' then [all_articles t y ! 3]
         else []))"
proof (intro conjI allI impI)
  assume "truthy f = None"
  then show "fetch_mock_data t y f = all_articles t y"
    by (simp add: fetch_mock_data_def)
  then show "length (fetch_mock_data t y f) = 5"
    by (simp add: all_articles_def)
next
  fix s assume s: "truthy f = Some s"
  then show "fetch_mock_data t y f = filter (\<lambda>a. lower (source a) = lower s) (all_articles t y)"
    by (simp add: fetch_mock_data_def)
  have ne: "''sourcea (tech weekly)'' \<noteq> ''sourceb (finance news)''"
    "''sourcea (tech weekly)'' \<noteq> ''sourcec (policy hub)''"
    "''sourceb (finance news)'' \<noteq> ''sourcec (policy hub)''"
    by simp_all
  show "fetch_mock_data t y f =
        (if lower s = ''sourcea (tech weekly)''
         then [all_articles t y ! 0, all_articles t y ! 2, all_articles t y ! 4]
         else if lower s = ''sourceb (finance news)'' then [all_articles t y ! 1]
         else if lower s = ''sourcec (policy hub)'' then [all_articles t y ! 3]
         else [])"
    using s ne by (auto simp: fetch_mock_data_def all_articles_def lower_sources)
qed

theorem fetch_mock_data_exact_source_witness:
  "truthy (Some ''SOURCEB (finance NEWS)'') = Some ''SOURCEB (finance NEWS)'' \<and>
   fetch_mock_data ''2024-10-25'' ''2024-10-24'' (Some ''SOURCEB (finance NEWS)'') =
     [all_articles ''2024-10-25'' ''2024-10-24'' ! 1] \<and>
   truthy (Some ''SourceA'') = Some ''SourceA'' \<and>
   fetch_mock_data ''2024-10-25'' ''2024-10-24'' (Some ''SourceA'') = [] \<and>
   contains_ci ''SourceA'' (source (all_articles ''2024-10-25'' ''2024-10-24'' ! 0)) \<and>
   truthy (Some '''') = None \<and>
   fetch_mock_data ''2024-10-25'' ''2024-10-24'' (Some '''') = all_articles ''2024-10-25'' ''2024-10-24''"
proof -
  have h1: "truthy (Some ''SOURCEB (finance NEWS)'') = Some ''SOURCEB (finance NEWS)''"
    and h2: "truthy (Some ''SourceA'') = Some ''SourceA''"
    and h3: "truthy (Some '''') = None"
    by (simp_all add: truthy_def)
  have l1: "lower ''SOURCEB (finance NEWS)'' = ''sourceb (finance news)''"
    and l2: "lower ''SourceA'' = ''sourcea''"
    by code_simp+
  have c: "contains_ci ''SourceA'' (source (all_articles ''2024-10-25'' ''2024-10-24'' ! 0))"
    by code_simp
  note t1 = fetch_mock_data_exact_source[of "Some ''SOURCEB (finance NEWS)''" "''2024-10-25''"
      "''2024-10-24''", THEN conjunct2, rule_format, OF h1, THEN conjunct2]
  note t2 = fetch_mock_data_exact_source[of "Some ''SourceA''" "''2024-10-25''"
      "''2024-10-24''", THEN conjunct2, rule_format, OF h2, THEN conjunct2]
  note t3 = fetch_mock_data_exact_source[of "Some ''''" "''2024-10-25''"
      "''2024-10-24''", THEN conjunct1, rule_format, OF h3, THEN conjunct1]
  have r1: "fetch_mock_data ''2024-10-25'' ''2024-10-24'' (Some ''SOURCEB (finance NEWS)'') =
     [all_articles ''2024-10-25'' ''2024-10-24'' ! 1]"
    using t1 by (simp add: l1)
  have r2: "fetch_mock_data ''2024-10-25'' ''2024-10-24'' (Some ''SourceA'') = []"
    using t2 by (simp add: l2)
  from r1 r2 t3 h1 h2 h3 c show ?thesis by blast
qed

text \<open>
  Claim C5, as the code has it. For a format other than \<^verbatim>\<open>csv\<close>, \<^verbatim>\<open>excel\<close> and
  \<^verbatim>\<open>json\<close>, \<^verbatim>\<open>export_data\<close> leaves every file as it was and returns normally. For a
  frame with rows it prints \<^verbatim>\<open>Error: Unsupported export format\<close>; for an empty frame it
  prints \<^verbatim>\<open>No results to export.\<close> and never looks at the format.
\<close>

theorem export_data_unsupported_format:
  assumes "\<not> supported_format fmt"
  shows "export_data fault df path fmt fs =
           (Returned (), fs,
            if df = [] then [NoResultsToExport]
            else [Exporting (length df) path, UnsupportedFormat fmt])"
  using assms by (simp add: export_data_def supported_format_def)

theorem export_data_unsupported_format_witness:
  "\<not> supported_format ''xml'' \<and>
   export_data None [example_article ''A'' ''L1''] ''report.xml'' ''xml'' Map.empty =
     (Returned (), Map.empty, [Exporting 1 ''report.xml'', UnsupportedFormat ''xml''])"
proof -
  have h: "\<not> supported_format ''xml''"
    by (simp add: supported_format_def)
  from export_data_unsupported_format[OF h, of None "[example_article ''A'' ''L1'']" "''report.xml''" Map.empty] h
  show ?thesis by simp
qed

text \<open>
  Claim C5 as stated fails: with an empty frame the format \<^verbatim>\<open>xml\<close> is not reported at
  all, and with a frame of one row the call returns normally instead of raising.
\<close>

theorem export_data_unsupported_format_counterexample:
  "fst (export_data None [] ''report.xml'' ''xml'' Map.empty) = Returned () \<and>
   snd (snd (export_data None [] ''report.xml'' ''xml'' Map.empty)) = [NoResultsToExport] \<and>
   fst (export_data None [example_article ''A'' ''L1''] ''report.xml'' ''xml'' Map.empty) = Returned ()"
  by (simp add: export_data_def)










section \<open>Properties of the delimited export\<close>

text \<open>
  The reader undoes the writer one layer at a time: the body of a quoted field, an
  unquoted field, a field up to its delimiter, a record, and the whole file.
\<close>

lemma read_quoted:
  "read_csv InQuoted f r (escape_quotes s @ quote_char # rest) = read_csv QuoteSeen (f @ s) r rest"
  by (induction s arbitrary: f) auto

lemma read_unquoted:
  "\<not> list_ex special s \<Longrightarrow>
   read_csv InField f r (s @ rest) = read_csv InField (f @ s) r rest"
  by (induction s arbitrary: f) (auto simp: special_def)

lemma delimiters_distinct:
  "comma \<noteq> quote_char" "newline \<noteq> quote_char" "comma \<noteq> newline"
  by (simp_all add: comma_def quote_char_def newline_def)

lemma read_field_comma:
  "read_csv StartField [] r (csv_field s @ comma # rest) = read_csv StartField [] (r @ [s]) rest"
proof (cases "list_ex special s")
  case True
  then show ?thesis
    using read_quoted[of "[]" r s "comma # rest"] delimiters_distinct
    by (simp add: csv_field_def)
next
  case False
  show ?thesis
  proof (cases s)
    case Nil
    then show ?thesis using delimiters_distinct by (simp add: csv_field_def)
  next
    case (Cons c cs)
    with False have c: "c \<noteq> quote_char" "c \<noteq> comma" "c \<noteq> newline" and cs: "\<not> list_ex special cs"
      by (auto simp: special_def)
    from read_unquoted[OF cs, of "[c]" r "comma # rest"] c False Cons
    show ?thesis by (simp add: csv_field_def)
  qed
qed

lemma read_field_newline:
  "read_csv StartField [] r (csv_field s @ newline # rest) =
     map_option ((#) (r @ [s])) (read_csv StartField [] [] rest)"
proof (cases "list_ex special s")
  case True
  then show ?thesis
    using read_quoted[of "[]" r s "newline # rest"] delimiters_distinct
    by (simp add: csv_field_def)
next
  case False
  show ?thesis
  proof (cases s)
    case Nil
    then show ?thesis using delimiters_distinct by (simp add: csv_field_def)
  next
    case (Cons c cs)
    with False have c: "c \<noteq> quote_char" "c \<noteq> comma" "c \<noteq> newline" and cs: "\<not> list_ex special cs"
      by (auto simp: special_def)
    from read_unquoted[OF cs, of "[c]" r "newline # rest"] c False Cons delimiters_distinct
    show ?thesis by (simp add: csv_field_def)
  qed
qed

lemma read_record:
  "cells \<noteq> [] \<Longrightarrow>
   read_csv StartField [] r (join_comma (map csv_field cells) @ newline # rest) =
     map_option ((#) (r @ cells)) (read_csv StartField [] [] rest)"
proof (induction cells arbitrary: r)
  case Nil
  then show ?case by simp
next
  case (Cons c cells)
  show ?case
  proof (cases cells)
    case Nil
    then show ?thesis by (simp add: read_field_newline)
  next
    case (Cons d ds)
    then have "cells \<noteq> []" by simp
    from Cons.IH[OF this, of "r @ [c]"] Cons show ?thesis
      by (simp add: read_field_comma)
  qed
qed

lemma read_records:
  "list_all (\<lambda>cells. cells \<noteq> []) rows \<Longrightarrow>
   read_csv StartField [] [] (concat (map csv_record rows)) = Some rows"
proof (induction rows)
  case Nil
  then show ?case by simp
next
  case (Cons cells rows)
  then have ne: "cells \<noteq> []" and ih: "read_csv StartField [] [] (concat (map csv_record rows)) = Some rows"
    by simp_all
  have cr: "csv_record cells = join_comma (map csv_field cells) @ [newline]"
    by (simp add: csv_record_def)
  from read_record[OF ne, of "[]" "concat (map csv_record rows)"] ih
  show ?case by (simp add: cr)
qed

lemma parse_to_csv: "parse_csv (to_csv df) = Some (header # map visible_fields df)"
proof -
  have "list_all (\<lambda>cells. cells \<noteq> []) (header # map visible_fields df)"
    by (simp add: header_def visible_fields_def list_all_iff)
  from read_records[OF this] show ?thesis
    by (simp add: parse_csv_def to_csv_def)
qed

text \<open>
  Claim C8, as the code has it. Exporting a non-empty result set as \<^verbatim>\<open>csv\<close> writes a
  file that reads back as the header followed by one record of five cells per row, in the
  order of the rows, with the title, summary, link, source and date of the row; a missing
  summary comes back as the empty string. The column \<^verbatim>\<open>id\<close> is not in the header.
\<close>

theorem export_csv_roundtrip:
  assumes "df \<noteq> []"
  shows "export_data None df path ''csv'' fs =
           (Returned (), fs(path \<mapsto> CsvFile (to_csv df)),
            [Exporting (length df) path, ExportedCsv path]) \<and>
         parse_csv (to_csv df) = Some (header # map visible_fields df) \<and>
         ''id'' \<notin> set header"
  using assms by (simp add: export_data_def write_file_def parse_to_csv header_def)

theorem export_csv_roundtrip_witness:
  "[example_article ''A,b'' ''L1'', (example_article ''C'' ''L2'')\<lparr>summary := None\<rparr>] \<noteq> [] \<and>
   parse_csv (to_csv [example_article ''A,b'' ''L1'', (example_article ''C'' ''L2'')\<lparr>summary := None\<rparr>]) =
     Some [[''title'', ''summary'', ''link'', ''source'', ''published_date''],
           [''A,b'', ''...'', ''L1'', ''SourceA (Tech Weekly)'', ''2024-10-25''],
           [''C'', '''', ''L2'', ''SourceA (Tech Weekly)'', ''2024-10-25'']]"
proof -
  let ?df = "[example_article ''A,b'' ''L1'', (example_article ''C'' ''L2'')\<lparr>summary := None\<rparr>]"
  have h: "?df \<noteq> []" by simp
  from export_csv_roundtrip[OF h, of "''report.csv''" Map.empty]
  have "parse_csv (to_csv ?df) = Some (header # map visible_fields ?df)" by blast
  then show ?thesis
    by (simp add: header_def visible_fields_def example_article_def)
qed

text \<open>
  Claim C8 as stated fails: a row with a missing summary and the same row with an empty
  summary are written as the same file, so no reader gives back both; the reader above
  gives the empty string.
\<close>

theorem export_csv_null_summary_counterexample:
  "to_csv [(example_article ''A'' ''L1'')\<lparr>summary := None\<rparr>] =
     to_csv [(example_article ''A'' ''L1'')\<lparr>summary := Some ''''\<rparr>] \<and>
   (example_article ''A'' ''L1'')\<lparr>summary := None\<rparr> \<noteq> (example_article ''A'' ''L1'')\<lparr>summary := Some ''''\<rparr> \<and>
   parse_csv (to_csv [(example_article ''A'' ''L1'')\<lparr>summary := None\<rparr>]) =
     Some [[''title'', ''summary'', ''link'', ''source'', ''published_date''],
           [''A'', '''', ''L1'', ''SourceA (Tech Weekly)'', ''2024-10-25'']]"
proof -
  have 1: "to_csv [(example_article ''A'' ''L1'')\<lparr>summary := None\<rparr>] =
     to_csv [(example_article ''A'' ''L1'')\<lparr>summary := Some ''''\<rparr>]"
    by (simp add: to_csv_def visible_fields_def example_article_def)
  have 2: "(example_article ''A'' ''L1'')\<lparr>summary := None\<rparr> \<noteq> (example_article ''A'' ''L1'')\<lparr>summary := Some ''''\<rparr>"
    by (simp add: example_article_def)
  have 3: "parse_csv (to_csv [(example_article ''A'' ''L1'')\<lparr>summary := None\<rparr>]) =
     Some [[''title'', ''summary'', ''link'', ''source'', ''published_date''],
           [''A'', '''', ''L1'', ''SourceA (Tech Weekly)'', ''2024-10-25'']]"
    by (simp add: parse_to_csv header_def visible_fields_def example_article_def)
  from 1 2 3 show ?thesis by blast
qed

text \<open>The file written for one row whose title holds a comma.\<close>

lemma to_csv_example:
  "to_csv [example_article ''A,b'' ''L1''] =
     ''title,summary,link,source,published_date'' @ [newline] @
     [quote_char] @ ''A,b'' @ [quote_char] @ '',...,L1,SourceA (Tech Weekly),2024-10-25'' @ [newline]"
  by code_simp


end
